theory Spec2Isabelle
  imports Complex_Main
begin

section \<open>Python exceptions\<close>

text \<open>
  The exceptions the two modules raise. The specification's error names are classes of
  these: \<open>CannotHaveChildren\<close>, \<open>InvalidValue\<close>, \<open>NullNotAllowed\<close>,
  \<open>EmptySequenceNotAllowed\<close> and \<open>InvalidShorthand\<close> are all \<open>ValueError\<close> in the
  code, \<open>UnknownProperty\<close> is \<open>KeyError\<close> (\<open>NameError\<close> in \<open>update\<close>).
  \<open>RecursionError\<close> is what Python raises when a recursion exceeds the depth it allows.
\<close>

datatype pyerr = ValueError | KeyError | NameError | TypeError | RecursionError

section \<open>The node tree (travertino/node.py)\<close>

text \<open>
  Nodes are objects with identity that point at each other, so the tree is a store from
  references to the three tree fields of a node: \<open>_parent\<close>, \<open>_root\<close> and \<open>_children\<close>
  (\<open>None\<close> for a leaf). The style and the applicator of a node take no part in the
  tree operations and are left out of the store.
\<close>

type_synonym ref = nat

record node =
  n_parent :: "ref option"
  n_root :: "ref option"
  n_children :: "ref list option"

type_synonym heap = "ref \<Rightarrow> node"

text \<open>The properties \<open>root\<close>, \<open>parent\<close>, \<open>children\<close> and \<open>can_have_children\<close>.\<close>

definition Node_root :: "heap \<Rightarrow> ref \<Rightarrow> ref" where
  "Node_root h self = (case n_root (h self) of Some r \<Rightarrow> r | None \<Rightarrow> self)"

definition Node_parent :: "heap \<Rightarrow> ref \<Rightarrow> ref option" where
  "Node_parent h self = n_parent (h self)"

definition Node_children :: "heap \<Rightarrow> ref \<Rightarrow> ref list" where
  "Node_children h self = (case n_children (h self) of None \<Rightarrow> [] | Some cs \<Rightarrow> cs)"

definition Node_can_have_children :: "heap \<Rightarrow> ref \<Rightarrow> bool" where
  "Node_can_have_children h self = (n_children (h self) \<noteq> None)"

text \<open>
  \<open>_set_root\<close> recurses through the children of the node. The first argument is the
  recursion depth still allowed: on a store whose children edges form a cycle the
  recursion never ends by itself, and Python raises \<open>RecursionError\<close> (the result
  \<open>None\<close> here).
\<close>

fun Node_set_root :: "nat \<Rightarrow> heap \<Rightarrow> ref \<Rightarrow> ref option \<Rightarrow> heap option"
  and Node_set_root_each :: "nat \<Rightarrow> heap \<Rightarrow> ref list \<Rightarrow> ref option \<Rightarrow> heap option" where
  "Node_set_root 0 h n r = None"
| "Node_set_root (Suc k) h n r =
     (let h1 = h(n := (h n)\<lparr>n_root := r\<rparr>)
      in Node_set_root_each k h1 (Node_children h1 n) r)"
| "Node_set_root_each k h [] r = Some h"
| "Node_set_root_each k h (c # cs) r =
     (case Node_set_root k h c r of
        None \<Rightarrow> None
      | Some h1 \<Rightarrow> Node_set_root_each k h1 cs r)"

text \<open>
  An operation returns the store it leaves, or the exception it raises. The checks that
  raise \<open>ValueError\<close> come before any change to the store; the store that an operation
  leaves behind when the propagation of the root ends in \<open>RecursionError\<close> is not
  modelled.
\<close>

definition Node_add :: "nat \<Rightarrow> ref \<Rightarrow> ref \<Rightarrow> heap \<Rightarrow> pyerr + heap" where
  "Node_add k self child h =
     (case n_children (h self) of
        None \<Rightarrow> Inl ValueError
      | Some cs \<Rightarrow>
          (let h1 = h(self := (h self)\<lparr>n_children := Some (cs @ [child])\<rparr>);
               h2 = h1(child := (h1 child)\<lparr>n_parent := Some self\<rparr>)
           in case Node_set_root k h2 child (Some (Node_root h2 self)) of
                None \<Rightarrow> Inl RecursionError
              | Some h3 \<Rightarrow> Inr h3))"

text \<open>Python's \<open>list.insert\<close>: a negative index counts from the end, and an index
  outside the list is clamped to its ends.\<close>

definition list_insert :: "int \<Rightarrow> 'a \<Rightarrow> 'a list \<Rightarrow> 'a list" where
  "list_insert i x xs =
     (let n = int (length xs);
          j = (if i < 0 then max 0 (n + i) else min i n)
      in take (nat j) xs @ x # drop (nat j) xs)"

definition Node_insert :: "nat \<Rightarrow> ref \<Rightarrow> int \<Rightarrow> ref \<Rightarrow> heap \<Rightarrow> pyerr + heap" where
  "Node_insert k self index child h =
     (case n_children (h self) of
        None \<Rightarrow> Inl ValueError
      | Some cs \<Rightarrow>
          (let h1 = h(self := (h self)\<lparr>n_children := Some (list_insert index child cs)\<rparr>);
               h2 = h1(child := (h1 child)\<lparr>n_parent := Some self\<rparr>)
           in case Node_set_root k h2 child (Some (Node_root h2 self)) of
                None \<Rightarrow> Inl RecursionError
              | Some h3 \<Rightarrow> Inr h3))"

text \<open>Python's \<open>list.remove\<close> deletes the first occurrence and raises \<open>ValueError\<close>
  when there is none.\<close>

definition Node_remove :: "nat \<Rightarrow> ref \<Rightarrow> ref \<Rightarrow> heap \<Rightarrow> pyerr + heap" where
  "Node_remove k self child h =
     (case n_children (h self) of
        None \<Rightarrow> Inl ValueError
      | Some cs \<Rightarrow>
          if child \<notin> set cs then Inl ValueError
          else
            (let h1 = h(self := (h self)\<lparr>n_children := Some (remove1 child cs)\<rparr>);
                 h2 = h1(child := (h1 child)\<lparr>n_parent := None\<rparr>)
             in case Node_set_root k h2 child None of
                  None \<Rightarrow> Inl RecursionError
                | Some h3 \<Rightarrow> Inr h3))"

fun Node_clear_loop :: "nat \<Rightarrow> heap \<Rightarrow> ref list \<Rightarrow> heap option" where
  "Node_clear_loop k h [] = Some h"
| "Node_clear_loop k h (c # cs) =
     (case Node_set_root k (h(c := (h c)\<lparr>n_parent := None\<rparr>)) c None of
        None \<Rightarrow> None
      | Some h1 \<Rightarrow> Node_clear_loop k h1 cs)"

definition Node_clear :: "nat \<Rightarrow> ref \<Rightarrow> heap \<Rightarrow> pyerr + heap" where
  "Node_clear k self h =
     (case n_children (h self) of
        None \<Rightarrow> Inr h
      | Some cs \<Rightarrow>
          (case Node_clear_loop k h cs of
             None \<Rightarrow> Inl RecursionError
           | Some h1 \<Rightarrow> Inr (h1(self := (h1 self)\<lparr>n_children := Some []\<rparr>))))"

text \<open>
  A node as \<open>__init__\<close> leaves it before the children are added: no parent, no root,
  and \<open>_children\<close> either \<open>None\<close> (a leaf) or the empty list. The constructor then adds
  the children it was given one by one with \<open>add\<close>.
\<close>

definition new_node :: "bool \<Rightarrow> node" where
  "new_node leaf = \<lparr>n_parent = None, n_root = None,
                    n_children = (if leaf then None else Some [])\<rparr>"

definition fresh :: "heap \<Rightarrow> bool" where
  "fresh h = (\<forall>n. h n = new_node True \<or> h n = new_node False)"

text \<open>The stores that sequences of returning tree operations build from new nodes,
  where \<open>add\<close> and \<open>insert\<close> are given a child that has no parent.\<close>

inductive built :: "heap \<Rightarrow> bool" where
  built_fresh: "fresh h \<Longrightarrow> built h"
| built_add: "built h \<Longrightarrow> Node_parent h child = None \<Longrightarrow>
     Node_add k self child h = Inr h' \<Longrightarrow> built h'"
| built_insert: "built h \<Longrightarrow> Node_parent h child = None \<Longrightarrow>
     Node_insert k self index child h = Inr h' \<Longrightarrow> built h'"
| built_remove: "built h \<Longrightarrow> Node_remove k self child h = Inr h' \<Longrightarrow> built h'"
| built_clear: "built h \<Longrightarrow> Node_clear k self h = Inr h' \<Longrightarrow> built h'"

definition parent_consistent :: "heap \<Rightarrow> bool" where
  "parent_consistent h =
     ((\<forall>p c. (c \<in> set (Node_children h p)) = (Node_parent h c = Some p))
      \<and> (\<forall>p. distinct (Node_children h p)))"

text \<open>
  The nodes that are reachable from a node through children edges, the node itself among
  them; and the stores in which nothing lies \<open>k\<close> or more children edges below a node,
  so that a recursion of depth \<open>k\<close> from the node reaches all of it.
\<close>

definition child_rel :: "heap \<Rightarrow> (ref \<times> ref) set" where
  "child_rel h = {(p, c). c \<in> set (Node_children h p)}"

definition descendants :: "heap \<Rightarrow> ref \<Rightarrow> ref set" where
  "descendants h n = {m. (n, m) \<in> (child_rel h)\<^sup>*}"

fun depth_within :: "nat \<Rightarrow> heap \<Rightarrow> ref \<Rightarrow> bool" where
  "depth_within 0 h n = False"
| "depth_within (Suc k) h n = list_all (depth_within k h) (Node_children h n)"


definition two_branches :: heap where
  "two_branches = (\<lambda>n. new_node (n \<noteq> 0 \<and> n \<noteq> 1))"

text \<open>Running operations one after another (an exception ends the run), and reading
  \<open>parent\<close>, \<open>root\<close> and \<open>children\<close> of some nodes off the store a run ends in.\<close>

definition and_then :: "pyerr + heap \<Rightarrow> (heap \<Rightarrow> pyerr + heap) \<Rightarrow> pyerr + heap" where
  "and_then r f = (case r of Inl e \<Rightarrow> Inl e | Inr h \<Rightarrow> f h)"

definition observe :: "ref list \<Rightarrow> pyerr + heap \<Rightarrow> pyerr + (ref option \<times> ref \<times> ref list) list" where
  "observe ns r =
     (case r of Inl e \<Rightarrow> Inl e
      | Inr h \<Rightarrow> Inr (map (\<lambda>n. (Node_parent h n, Node_root h n, Node_children h n)) ns))"

definition one_child :: heap where
  "one_child = (case Node_add 2 0 2 two_branches of Inr h \<Rightarrow> h | Inl e \<Rightarrow> two_branches)"


section \<open>Style declarations (travertino/declaration.py)\<close>

subsection \<open>Python values\<close>

text \<open>
  The values a style property is given or holds: \<open>None\<close>, integers, floats (a finite
  float as the rational number it denotes; infinities and NaN are left out), strings,
  tuples, lists, the module's \<open>ImmutableList\<close>, and a property descriptor object, which
  an autogenerated \<open>__init__\<close> passes when no value is supplied (known by its name).
\<close>

datatype pyval =
    VNone
  | VInt int
  | VFloat rat
  | VStr string
  | VTuple "pyval list"
  | VList "pyval list"
  | VImmutableList "pyval list"
  | VDescriptor string

text \<open>
  Python's \<open>==\<close> on these values. Numbers compare by value across \<open>int\<close> and \<open>float\<close>;
  a tuple never equals a list. \<open>ImmutableList.__eq__\<close> compares its \<open>_data\<close> with the
  other operand, so an \<open>ImmutableList\<close> equals a list with equal items, and (through the
  reflected call) another \<open>ImmutableList\<close> with equal items.
\<close>

function py_eq :: "pyval \<Rightarrow> pyval \<Rightarrow> bool"
  and py_eq_list :: "pyval list \<Rightarrow> pyval list \<Rightarrow> bool" where
  "py_eq VNone w = (case w of VNone \<Rightarrow> True | _ \<Rightarrow> False)"
| "py_eq (VInt i) w =
     (case w of VInt j \<Rightarrow> i = j | VFloat r \<Rightarrow> of_int i = r | _ \<Rightarrow> False)"
| "py_eq (VFloat r) w =
     (case w of VInt j \<Rightarrow> r = of_int j | VFloat q \<Rightarrow> r = q | _ \<Rightarrow> False)"
| "py_eq (VStr s) w = (case w of VStr t \<Rightarrow> s = t | _ \<Rightarrow> False)"
| "py_eq (VTuple xs) w = (case w of VTuple ys \<Rightarrow> py_eq_list xs ys | _ \<Rightarrow> False)"
| "py_eq (VList xs) w =
     (case w of VList ys \<Rightarrow> py_eq_list xs ys | VImmutableList ys \<Rightarrow> py_eq_list ys xs
      | _ \<Rightarrow> False)"
| "py_eq (VImmutableList xs) w =
     (case w of VList ys \<Rightarrow> py_eq_list xs ys | VImmutableList ys \<Rightarrow> py_eq_list ys xs
      | _ \<Rightarrow> False)"
| "py_eq (VDescriptor a) w = (case w of VDescriptor b \<Rightarrow> a = b | _ \<Rightarrow> False)"
| "py_eq_list [] ys = (ys = [])"
| "py_eq_list (x # xs) ys =
     (case ys of [] \<Rightarrow> False | y # ys' \<Rightarrow> py_eq x y \<and> py_eq_list xs ys')"
  by pat_completeness auto
termination
  by (relation "measure (\<lambda>x. case x of
         Inl (a, b) \<Rightarrow> size a + size b
       | Inr (xs, ys) \<Rightarrow> size_list size xs + size_list size ys)") auto

text \<open>
  \<open>str.strip()\<close> removes leading and trailing whitespace (the ASCII whitespace of
  \<open>str.isspace\<close>); only a string has the method, every other value of the model raises
  \<open>AttributeError\<close> (the result \<open>None\<close>).
\<close>

definition is_space :: "char \<Rightarrow> bool" where
  "is_space c = (c \<in> set [CHR 0x09, CHR 0x0A, CHR 0x0B, CHR 0x0C, CHR 0x0D,
                            CHR 0x1C, CHR 0x1D, CHR 0x1E, CHR 0x1F, CHR 0x20])"

definition strip :: "string \<Rightarrow> string" where
  "strip s = rev (dropWhile is_space (rev (dropWhile is_space s)))"

definition str_strip :: "pyval \<Rightarrow> pyval option" where
  "str_strip v = (case v of VStr s \<Rightarrow> Some (VStr (strip s)) | _ \<Rightarrow> None)"

text \<open>\<open>name.replace("-", "_")\<close>.\<close>

definition replace_hyphens :: "string \<Rightarrow> string" where
  "replace_hyphens name = map (\<lambda>c. if c = CHR ''-'' then CHR ''_'' else c) name"

text \<open>
  The conversions that \<open>Choices.validate\<close> calls are parameters of the model: the
  builtins \<open>int\<close> and \<open>float\<close>, and the colour parser \<open>color\<close> of
  \<open>travertino.colors\<close>, a module that is not among the sources at hand. Each gives
  \<open>None\<close> where the call raises the exception its branch of \<open>validate\<close> catches
  (\<open>ValueError\<close> or \<open>TypeError\<close> for \<open>int\<close> and \<open>float\<close>, \<open>ValueError\<close> for \<open>color\<close>).
\<close>

record coercions =
  to_int :: "pyval \<Rightarrow> pyval option"
  to_float :: "pyval \<Rightarrow> pyval option"
  to_color :: "pyval \<Rightarrow> pyval option"

subsection \<open>Choices\<close>

text \<open>\<open>constants\<close> is a Python set; the list gives its elements in the order the set
  iterates them.\<close>

record Choices =
  constants :: "pyval list"
  string :: bool
  integer :: bool
  number :: bool
  color :: bool

definition Choices_validate :: "coercions \<Rightarrow> Choices \<Rightarrow> pyval \<Rightarrow> pyerr + pyval" where
  "Choices_validate X c v =
     (case (if string c then str_strip v else None) of
        Some r \<Rightarrow> Inr r
      | None \<Rightarrow>
     (case (if integer c then to_int X v else None) of
        Some r \<Rightarrow> Inr r
      | None \<Rightarrow>
     (case (if number c then to_float X v else None) of
        Some r \<Rightarrow> Inr r
      | None \<Rightarrow>
     (case (if color c then to_color X v else None) of
        Some r \<Rightarrow> Inr r
      | None \<Rightarrow>
     (case find (\<lambda>const. py_eq v const) (constants c) of
        Some const \<Rightarrow> Inr const
      | None \<Rightarrow> Inl ValueError)))))"




subsection \<open>Property descriptors\<close>

text \<open>
  A \<open>validated_property\<close> holds its choices and its initial value (\<open>None\<close> when none was
  given); \<open>list_property\<close> is the subclass that overrides \<open>validate\<close>. The descriptor's
  \<open>name\<close> is the attribute name \<open>__set_name__\<close> gave it: the model passes it along.
\<close>

datatype property_kind = Scalar | ListOf

record validated_property =
  kind :: property_kind
  choices :: Choices
  initial :: pyval

text \<open>
  An object of a style class: its instance attributes (a property \<open>name\<close> is stored as
  the attribute \<open>_name\<close>), and the calls of \<open>apply(name, value)\<close> made on it so far, oldest
  first. \<open>apply\<close> is abstract in \<open>BaseStyle\<close>; what a subclass does in it is not modelled
  beyond the fact of the call.
\<close>

record style =
  attrs :: "string \<rightharpoonup> pyval"
  applied :: "(string \<times> pyval) list"

definition slot :: "string \<Rightarrow> string" where
  "slot name = CHR ''_'' # name"

fun validate_items :: "coercions \<Rightarrow> Choices \<Rightarrow> pyval list \<Rightarrow> pyerr + pyval list" where
  "validate_items X c [] = Inr []"
| "validate_items X c (item # items) =
     (case Choices_validate X c item of
        Inl e \<Rightarrow> Inl ValueError
      | Inr r \<Rightarrow>
          (case validate_items X c items of
             Inl e \<Rightarrow> Inl e
           | Inr rs \<Rightarrow> Inr (r # rs)))"

text \<open>Of the values of the model, a string, a tuple and a list are instances of
  \<open>Sequence\<close>; an \<open>ImmutableList\<close> is not.\<close>

definition list_property_validate :: "coercions \<Rightarrow> Choices \<Rightarrow> pyval \<Rightarrow> pyerr + pyval" where
  "list_property_validate X c v =
     (case (case v of VStr s \<Rightarrow> Some [v] | VTuple xs \<Rightarrow> Some xs | VList xs \<Rightarrow> Some xs
            | _ \<Rightarrow> None) of
        None \<Rightarrow> Inl TypeError
      | Some items \<Rightarrow>
          if items = [] then Inl ValueError
          else (case validate_items X c items of
                  Inl e \<Rightarrow> Inl e
                | Inr rs \<Rightarrow> Inr (VImmutableList rs)))"

definition validated_property_validate ::
    "coercions \<Rightarrow> validated_property \<Rightarrow> pyval \<Rightarrow> pyerr + pyval" where
  "validated_property_validate X p v =
     (case kind p of
        Scalar \<Rightarrow>
          (case Choices_validate X (choices p) v of
             Inl e \<Rightarrow> Inl ValueError
           | Inr r \<Rightarrow> Inr r)
      | ListOf \<Rightarrow> list_property_validate X (choices p) v)"

text \<open>\<open>__init__\<close>: an initial value that is given must validate, and is kept validated.\<close>

definition validated_property_init ::
    "coercions \<Rightarrow> property_kind \<Rightarrow> Choices \<Rightarrow> pyval \<Rightarrow> pyerr + validated_property" where
  "validated_property_init X k c ini =
     (let p = \<lparr>kind = k, choices = c, initial = VNone\<rparr>
      in if ini = VNone then Inr p
         else (case validated_property_validate X p ini of
                 Inl e \<Rightarrow> Inl e
               | Inr r \<Rightarrow> Inr (p\<lparr>initial := r\<rparr>)))"

definition stored :: "string \<Rightarrow> style \<Rightarrow> pyval" where
  "stored name s = (case attrs s (slot name) of None \<Rightarrow> VNone | Some w \<Rightarrow> w)"

definition validated_property_get :: "string \<Rightarrow> validated_property \<Rightarrow> style \<Rightarrow> pyval" where
  "validated_property_get name p s =
     (let v = stored name s in if v = VNone then initial p else v)"

definition validated_property_set ::
    "coercions \<Rightarrow> string \<Rightarrow> validated_property \<Rightarrow> pyval \<Rightarrow> style \<Rightarrow> pyerr option \<times> style" where
  "validated_property_set X name p v s =
     (if v = VDescriptor name then (None, s)
      else if v = VNone then (Some ValueError, s)
      else (case validated_property_validate X p v of
              Inl e \<Rightarrow> (Some e, s)
            | Inr n \<Rightarrow>
                if \<not> py_eq n (stored name s)
                then (None, s\<lparr>attrs := (attrs s)(slot name \<mapsto> n),
                              applied := applied s @ [(name, n)]\<rparr>)
                else (None, s)))"


definition validated_property_delete :: "string \<Rightarrow> validated_property \<Rightarrow> style \<Rightarrow> style" where
  "validated_property_delete name p s =
     (case attrs s (slot name) of
        None \<Rightarrow> s
      | Some w \<Rightarrow> s\<lparr>attrs := (attrs s)(slot name := None),
                     applied := applied s @ [(name, initial p)]\<rparr>)"

definition validated_property_is_set_on :: "string \<Rightarrow> style \<Rightarrow> bool" where
  "validated_property_is_set_on name s = (attrs s (slot name) \<noteq> None)"

subsection \<open>Directional properties and the style class\<close>

text \<open>
  Modelled from the spec: the constants \<open>TOP\<close>, \<open>RIGHT\<close>, \<open>BOTTOM\<close> and \<open>LEFT\<close> of
  \<open>travertino.constants\<close>, a module that is not among the sources at hand; the
  specification names the four edges \<open>top\<close>, \<open>right\<close>, \<open>bottom\<close>, \<open>left\<close>.
\<close>

definition DIRECTIONS :: "string list" where
  "DIRECTIONS = [''top'', ''right'', ''bottom'', ''left'']"

definition ASSIGNMENT_SCHEMES :: "nat \<Rightarrow> nat list option" where
  "ASSIGNMENT_SCHEMES n =
     (if n = 1 then Some [0, 0, 0, 0]
      else if n = 2 then Some [0, 1, 0, 1]
      else if n = 3 then Some [0, 1, 2, 1]
      else if n = 4 then Some [0, 1, 2, 3]
      else None)"

text \<open>A value that is not a tuple is taken as the tuple of that one value.\<close>

definition as_tuple :: "pyval \<Rightarrow> pyval list" where
  "as_tuple v = (case v of VTuple xs \<Rightarrow> xs | _ \<Rightarrow> [v])"


text \<open>A \<open>name_format\<close> is the text before and the text after its replacement field
  \<open>{}\<close>; \<open>format\<close> puts \<open>_top\<close> and so on in the field.\<close>

type_synonym name_format = "string \<times> string"

definition format :: "name_format \<Rightarrow> string \<Rightarrow> string" where
  "format nf direction = fst nf @ CHR ''_'' # direction @ snd nf"

datatype descriptor = Validated validated_property | Directional name_format

text \<open>
  A style class, as the descriptors its body declares under their attribute names.
  \<open>_ALL_PROPERTIES\<close> is the set of all these names and \<open>_PROPERTIES\<close> the set of the names
  of the validated (scalar and list) properties; both are Python sets, and the order a
  loop over \<open>_PROPERTIES\<close> takes is the order of the list here.
\<close>

type_synonym schema = "(string \<times> descriptor) list"

fun validated_properties :: "schema \<Rightarrow> (string \<times> validated_property) list" where
  "validated_properties [] = []"
| "validated_properties ((n, Validated p) # sch) = (n, p) # validated_properties sch"
| "validated_properties ((n, Directional nf) # sch) = validated_properties sch"

definition PROPERTIES :: "schema \<Rightarrow> string list" where
  "PROPERTIES sch = map fst (validated_properties sch)"

definition ALL_PROPERTIES :: "schema \<Rightarrow> string list" where
  "ALL_PROPERTIES sch = map fst sch"

text \<open>Class attribute names are distinct, and as Python identifiers hold no hyphen.\<close>

definition wf_schema :: "schema \<Rightarrow> bool" where
  "wf_schema sch =
     (distinct (map fst sch) \<and> list_all (\<lambda>n. CHR ''-'' \<notin> set n) (map fst sch))"

text \<open>
  \<open>__getitem__\<close> reads a directional property through \<open>__getitem__\<close> of its four
  sub-properties, and likewise \<open>__setitem__\<close> and \<open>__delitem__\<close>; a sub-property may be
  directional again, so the first argument bounds the depth of the recursion as for
  \<open>_set_root\<close>. Reading or writing a validated property takes one level.
\<close>

function BaseStyle_getitem :: "nat \<Rightarrow> schema \<Rightarrow> string \<Rightarrow> style \<Rightarrow> pyerr + pyval"
  and directional_property_get ::
    "nat \<Rightarrow> schema \<Rightarrow> name_format \<Rightarrow> string list \<Rightarrow> style \<Rightarrow> pyerr + pyval list" where
  "BaseStyle_getitem 0 sch name s = Inl RecursionError"
| "BaseStyle_getitem (Suc k) sch name s =
     (let name = replace_hyphens name
      in case map_of sch name of
           None \<Rightarrow> Inl KeyError
         | Some (Validated p) \<Rightarrow> Inr (validated_property_get name p s)
         | Some (Directional nf) \<Rightarrow>
             (case directional_property_get k sch nf DIRECTIONS s of
                Inl e \<Rightarrow> Inl e
              | Inr vs \<Rightarrow> Inr (VTuple vs)))"
| "directional_property_get k sch nf [] s = Inr []"
| "directional_property_get k sch nf (direction # ds) s =
     (case BaseStyle_getitem k sch (format nf direction) s of
        Inl e \<Rightarrow> Inl e
      | Inr v \<Rightarrow>
          (case directional_property_get k sch nf ds s of
             Inl e \<Rightarrow> Inl e
           | Inr vs \<Rightarrow> Inr (v # vs)))"
  by pat_completeness auto
termination
  by (relation "measures
        [\<lambda>x. case x of Inl (k, _) \<Rightarrow> k | Inr (k, _) \<Rightarrow> k,
         \<lambda>x. case x of Inl _ \<Rightarrow> 0 | Inr (k, sch, nf, ds, s) \<Rightarrow> Suc (length ds)]")
     auto

function BaseStyle_setitem ::
    "nat \<Rightarrow> coercions \<Rightarrow> schema \<Rightarrow> string \<Rightarrow> pyval \<Rightarrow> style \<Rightarrow> pyerr option \<times> style"
  and directional_property_set ::
    "nat \<Rightarrow> coercions \<Rightarrow> schema \<Rightarrow> string \<Rightarrow> name_format \<Rightarrow> pyval \<Rightarrow> style
       \<Rightarrow> pyerr option \<times> style"
  and directional_property_set_each ::
    "nat \<Rightarrow> coercions \<Rightarrow> schema \<Rightarrow> name_format \<Rightarrow> pyval list \<Rightarrow> (string \<times> nat) list \<Rightarrow> style
       \<Rightarrow> pyerr option \<times> style" where
  "BaseStyle_setitem 0 X sch name v s = (Some RecursionError, s)"
| "BaseStyle_setitem (Suc k) X sch name v s =
     (let name = replace_hyphens name
      in case map_of sch name of
           None \<Rightarrow> (Some KeyError, s)
         | Some (Validated p) \<Rightarrow> validated_property_set X name p v s
         | Some (Directional nf) \<Rightarrow> directional_property_set k X sch name nf v s)"
| "directional_property_set k X sch name nf v s =
     (if v = VDescriptor name then (None, s)
      else
        (let vs = as_tuple v
         in case ASSIGNMENT_SCHEMES (length vs) of
              Some order \<Rightarrow> directional_property_set_each k X sch nf vs (zip DIRECTIONS order) s
            | None \<Rightarrow> (Some ValueError, s)))"
| "directional_property_set_each k X sch nf vs [] s = (None, s)"
| "directional_property_set_each k X sch nf vs ((direction, index) # rest) s =
     (case BaseStyle_setitem k X sch (format nf direction) (vs ! index) s of
        (None, s1) \<Rightarrow> directional_property_set_each k X sch nf vs rest s1
      | (Some e, s1) \<Rightarrow> (Some e, s1))"
  by pat_completeness auto
termination
  by (relation "measures
        [\<lambda>x. case x of Inl (k, _) \<Rightarrow> k | Inr (Inl (k, _)) \<Rightarrow> k | Inr (Inr (k, _)) \<Rightarrow> k,
         \<lambda>x. case x of Inl _ \<Rightarrow> 0 | Inr (Inl _) \<Rightarrow> 2 | Inr (Inr _) \<Rightarrow> 1,
         \<lambda>x. case x of Inr (Inr (k, X, sch, nf, vs, rest, s)) \<Rightarrow> length rest | _ \<Rightarrow> 0]")
     auto

function BaseStyle_delitem :: "nat \<Rightarrow> schema \<Rightarrow> string \<Rightarrow> style \<Rightarrow> pyerr option \<times> style"
  and directional_property_delete ::
    "nat \<Rightarrow> schema \<Rightarrow> name_format \<Rightarrow> string list \<Rightarrow> style \<Rightarrow> pyerr option \<times> style" where
  "BaseStyle_delitem 0 sch name s = (Some RecursionError, s)"
| "BaseStyle_delitem (Suc k) sch name s =
     (let name = replace_hyphens name
      in case map_of sch name of
           None \<Rightarrow> (Some KeyError, s)
         | Some (Validated p) \<Rightarrow> (None, validated_property_delete name p s)
         | Some (Directional nf) \<Rightarrow> directional_property_delete k sch nf DIRECTIONS s)"
| "directional_property_delete k sch nf [] s = (None, s)"
| "directional_property_delete k sch nf (direction # ds) s =
     (case BaseStyle_delitem k sch (format nf direction) s of
        (None, s1) \<Rightarrow> directional_property_delete k sch nf ds s1
      | (Some e, s1) \<Rightarrow> (Some e, s1))"
  by pat_completeness auto
termination
  by (relation "measures
        [\<lambda>x. case x of Inl (k, _) \<Rightarrow> k | Inr (k, _) \<Rightarrow> k,
         \<lambda>x. case x of Inl _ \<Rightarrow> 0 | Inr (k, sch, nf, ds, s) \<Rightarrow> Suc (length ds)]")
     auto

text \<open>
  \<open>directional_property.is_set_on\<close> asks \<open>hasattr(obj, name)\<close> of the four sub-property
  names (without the underscore of a stored value). An object has the attribute when
  the name is an instance attribute or a descriptor of its class; the methods of
  \<open>BaseStyle\<close> and an exception raised by reading a directional sub-property are not
  modelled.
\<close>

definition hasattr :: "schema \<Rightarrow> style \<Rightarrow> string \<Rightarrow> bool" where
  "hasattr sch s name = (attrs s name \<noteq> None \<or> map_of sch name \<noteq> None)"

definition directional_property_is_set_on :: "schema \<Rightarrow> name_format \<Rightarrow> style \<Rightarrow> bool" where
  "directional_property_is_set_on sch nf s =
     list_ex (\<lambda>direction. hasattr sch s (format nf direction)) DIRECTIONS"

definition BaseStyle_contains :: "schema \<Rightarrow> string \<Rightarrow> style \<Rightarrow> bool" where
  "BaseStyle_contains sch name s =
     (name \<in> set (ALL_PROPERTIES sch) \<and>
      (case map_of sch name of
         None \<Rightarrow> False
       | Some (Validated p) \<Rightarrow> validated_property_is_set_on name s
       | Some (Directional nf) \<Rightarrow> directional_property_is_set_on sch nf s))"

definition BaseStyle_keys :: "schema \<Rightarrow> style \<Rightarrow> string list" where
  "BaseStyle_keys sch s = filter (\<lambda>name. BaseStyle_contains sch name s) (PROPERTIES sch)"

fun reapply_loop :: "nat \<Rightarrow> schema \<Rightarrow> string list \<Rightarrow> style \<Rightarrow> pyerr option \<times> style" where
  "reapply_loop k sch [] s = (None, s)"
| "reapply_loop k sch (name # names) s =
     (case BaseStyle_getitem k sch name s of
        Inl e \<Rightarrow> (Some e, s)
      | Inr v \<Rightarrow> reapply_loop k sch names (s\<lparr>applied := applied s @ [(name, v)]\<rparr>))"

definition BaseStyle_reapply :: "nat \<Rightarrow> schema \<Rightarrow> style \<Rightarrow> pyerr option \<times> style" where
  "BaseStyle_reapply k sch s = reapply_loop k sch (PROPERTIES sch) s"



subsection \<open>Examples\<close>

text \<open>
  An instance of the conversions for the examples: \<open>int\<close> and \<open>float\<close> on the numbers of
  the model (\<open>int\<close> truncates a float towards zero) and on no other value, so a string
  is not parsed, and a colour parser that accepts nothing. The theorems hold for every
  instance of the conversions.
\<close>

definition numbers_only :: coercions where
  "numbers_only =
     \<lparr>to_int = (\<lambda>v. case v of
                  VInt i \<Rightarrow> Some (VInt i)
                | VFloat r \<Rightarrow> Some (VInt (if r < 0 then - \<lfloor>- r\<rfloor> else \<lfloor>r\<rfloor>))
                | _ \<Rightarrow> None),
      to_float = (\<lambda>v. case v of
                  VInt i \<Rightarrow> Some (VFloat (of_int i))
                | VFloat r \<Rightarrow> Some (VFloat r)
                | _ \<Rightarrow> None),
      to_color = (\<lambda>v. None)\<rparr>"


definition allow_string :: validated_property where
  "allow_string =
     \<lparr>kind = Scalar,
      choices = \<lparr>constants = [], string = True, integer = False, number = False,
                 color = False\<rparr>,
      initial = VStr ''start''\<rparr>"

definition allow_integer :: validated_property where
  "allow_integer =
     \<lparr>kind = Scalar,
      choices = \<lparr>constants = [], string = False, integer = True, number = False,
                 color = False\<rparr>,
      initial = VInt 0\<rparr>"

text \<open>A style class with these two properties, and one with a directional property
  \<open>margin = directional_property("margin{}")\<close> over four integer properties.\<close>

definition Style :: schema where
  "Style = [(''allow_string'', Validated allow_string),
            (''allow_integer'', Validated allow_integer)]"

definition BoxStyle :: schema where
  "BoxStyle = [(''margin'', Directional (''margin'', '''')),
               (''margin_top'', Validated allow_integer),
               (''margin_right'', Validated allow_integer),
               (''margin_bottom'', Validated allow_integer),
               (''margin_left'', Validated allow_integer)]"

text \<open>A style object on which nothing is set and \<open>apply\<close> has not been called, and one
  that holds 5 for \<open>allow_integer\<close> (the calls of \<open>apply\<close> counted from here on).\<close>

definition new_style :: style where
  "new_style = \<lparr>attrs = Map.empty, applied = []\<rparr>"

definition holding_5 :: style where
  "holding_5 = \<lparr>attrs = [slot ''allow_integer'' \<mapsto> VInt 5], applied = []\<rparr>"




section \<open>Properties of the node tree\<close>

subsection \<open>What the propagation of the root leaves alone\<close>

lemma set_root_fields:
  "Node_set_root k h n r = Some h' \<Longrightarrow>
     n_parent (h' m) = n_parent (h m) \<and> n_children (h' m) = n_children (h m)"
  "Node_set_root_each k h cs r = Some h' \<Longrightarrow>
     n_parent (h' m) = n_parent (h m) \<and> n_children (h' m) = n_children (h m)"
proof (induction k h n r and k h cs r arbitrary: h' and h'
       rule: Node_set_root_Node_set_root_each.induct)
  case (1 h n r)
  then show ?case by simp
next
  case (2 k h n r)
  from 2(2) have "Node_set_root_each k (h(n := (h n)\<lparr>n_root := r\<rparr>))
      (Node_children (h(n := (h n)\<lparr>n_root := r\<rparr>)) n) r = Some h'"
    by (simp add: Let_def)
  from 2(1)[OF refl this] show ?case by simp
next
  case (3 k h r)
  then show ?case by simp
next
  case (4 k h c cs r)
  from 4(3) obtain h1 where a: "Node_set_root k h c r = Some h1"
    and b: "Node_set_root_each k h1 cs r = Some h'"
    by (auto split: option.splits)
  from 4(1)[OF a] 4(2)[OF a b] show ?case by simp
qed

lemma clear_loop_fields:
  "Node_clear_loop k h cs = Some h' \<Longrightarrow>
     n_children (h' m) = n_children (h m) \<and>
     n_parent (h' m) = (if m \<in> set cs then None else n_parent (h m))"
proof (induction cs arbitrary: h)
  case Nil
  then show ?case by simp
next
  case (Cons c cs)
  from Cons.prems obtain h1 where
    a: "Node_set_root k (h(c := (h c)\<lparr>n_parent := None\<rparr>)) c None = Some h1"
    and b: "Node_clear_loop k h1 cs = Some h'"
    by (auto split: option.splits)
  from set_root_fields(1)[OF a, of m] Cons.IH[OF b] show ?case by auto
qed

subsection \<open>Each operation keeps parents and children consistent\<close>

lemma set_list_insert: "set (list_insert i x xs) = insert x (set xs)"
proof -
  have "set (take n xs) \<union> set (drop n xs) = set xs" for n
    by (metis append_take_drop_id set_append)
  then show ?thesis by (auto simp: list_insert_def Let_def)
qed

lemma distinct_list_insert: "distinct xs \<Longrightarrow> x \<notin> set xs \<Longrightarrow> distinct (list_insert i x xs)"
proof -
  assume d: "distinct xs" and x: "x \<notin> set xs"
  have "distinct (take n xs @ x # drop n xs)" for n
  proof -
    from d have "distinct (take n xs @ drop n xs)" by simp
    then have "distinct (take n xs)" "distinct (drop n xs)"
      "set (take n xs) \<inter> set (drop n xs) = {}"
      unfolding distinct_append by blast+
    moreover have "x \<notin> set (take n xs)" "x \<notin> set (drop n xs)"
      using x by (auto dest: in_set_takeD in_set_dropD)
    ultimately show ?thesis by auto
  qed
  then show ?thesis by (simp add: list_insert_def Let_def)
qed

lemma attach_consistent:
  assumes pc: "parent_consistent h"
    and np: "Node_parent h child = None"
    and cs: "n_children (h self) = Some cs"
    and ch: "\<And>m. n_children (h' m) = (if m = self then Some cs' else n_children (h m))"
    and pa: "\<And>m. n_parent (h' m) = (if m = child then Some self else n_parent (h m))"
    and s: "set cs' = insert child (set cs)"
    and d: "distinct cs \<Longrightarrow> child \<notin> set cs \<Longrightarrow> distinct cs'"
  shows "parent_consistent h'"
proof -
  have notin: "child \<notin> set (Node_children h p)" for p
    using pc np by (simp add: parent_consistent_def)
  have csp: "Node_children h self = cs" using cs by (simp add: Node_children_def)
  have chp: "Node_children h' m = (if m = self then cs' else Node_children h m)" for m
    using ch[of m] by (simp add: Node_children_def)
  have pap: "Node_parent h' m = (if m = child then Some self else Node_parent h m)" for m
    using pa[of m] by (simp add: Node_parent_def)
  have "(c \<in> set (Node_children h' p)) = (Node_parent h' c = Some p)" for p c
    using pc notin[of p] csp s by (auto simp: chp pap parent_consistent_def)
  moreover have "distinct (Node_children h' p)" for p
    using pc notin[of self] csp d by (auto simp: chp parent_consistent_def)
  ultimately show ?thesis by (simp add: parent_consistent_def)
qed

lemma add_consistent:
  assumes "parent_consistent h" "Node_parent h child = None" "Node_add k self child h = Inr h'"
  shows "parent_consistent h'"
proof -
  from assms(3) obtain cs where cs: "n_children (h self) = Some cs"
    by (auto simp: Node_add_def split: option.splits)
  define h1 where "h1 = h(self := (h self)\<lparr>n_children := Some (cs @ [child])\<rparr>)"
  define h2 where "h2 = h1(child := (h1 child)\<lparr>n_parent := Some self\<rparr>)"
  from assms(3) cs have sr: "Node_set_root k h2 child (Some (Node_root h2 self)) = Some h'"
    by (auto simp: Node_add_def Let_def h1_def h2_def split: option.splits)
  have f: "n_parent (h' m) = n_parent (h2 m) \<and> n_children (h' m) = n_children (h2 m)" for m
    using set_root_fields(1)[OF sr] .
  show ?thesis
  proof (rule attach_consistent[OF assms(1) assms(2) cs, where cs' = "cs @ [child]"])
    show "n_children (h' m) = (if m = self then Some (cs @ [child]) else n_children (h m))" for m
      using f[of m] by (simp add: h1_def h2_def)
    show "n_parent (h' m) = (if m = child then Some self else n_parent (h m))" for m
      using f[of m] by (simp add: h1_def h2_def)
  qed auto
qed

lemma insert_consistent:
  assumes "parent_consistent h" "Node_parent h child = None"
    "Node_insert k self index child h = Inr h'"
  shows "parent_consistent h'"
proof -
  from assms(3) obtain cs where cs: "n_children (h self) = Some cs"
    by (auto simp: Node_insert_def split: option.splits)
  define h1 where "h1 = h(self := (h self)\<lparr>n_children := Some (list_insert index child cs)\<rparr>)"
  define h2 where "h2 = h1(child := (h1 child)\<lparr>n_parent := Some self\<rparr>)"
  from assms(3) cs have sr: "Node_set_root k h2 child (Some (Node_root h2 self)) = Some h'"
    by (auto simp: Node_insert_def Let_def h1_def h2_def split: option.splits)
  have f: "n_parent (h' m) = n_parent (h2 m) \<and> n_children (h' m) = n_children (h2 m)" for m
    using set_root_fields(1)[OF sr] .
  show ?thesis
  proof (rule attach_consistent[OF assms(1) assms(2) cs, where cs' = "list_insert index child cs"])
    show "n_children (h' m) = (if m = self then Some (list_insert index child cs) else n_children (h m))" for m
      using f[of m] by (simp add: h1_def h2_def)
    show "n_parent (h' m) = (if m = child then Some self else n_parent (h m))" for m
      using f[of m] by (simp add: h1_def h2_def)
  qed (simp_all add: set_list_insert distinct_list_insert)
qed

lemma remove_consistent:
  assumes pc: "parent_consistent h" and rm: "Node_remove k self child h = Inr h'"
  shows "parent_consistent h'"
proof -
  from rm obtain cs where cs: "n_children (h self) = Some cs" and mem: "child \<in> set cs"
    by (auto simp: Node_remove_def split: option.splits if_splits)
  define h1 where "h1 = h(self := (h self)\<lparr>n_children := Some (remove1 child cs)\<rparr>)"
  define h2 where "h2 = h1(child := (h1 child)\<lparr>n_parent := None\<rparr>)"
  from rm cs mem have sr: "Node_set_root k h2 child None = Some h'"
    by (auto simp: Node_remove_def Let_def h1_def h2_def split: option.splits)
  have f: "n_parent (h' m) = n_parent (h2 m) \<and> n_children (h' m) = n_children (h2 m)" for m
    using set_root_fields(1)[OF sr] .
  have csp: "Node_children h self = cs" using cs by (simp add: Node_children_def)
  have dcs: "distinct cs" using pc csp by (auto simp: parent_consistent_def)
  have par: "Node_parent h child = Some self"
    using pc csp mem by (auto simp: parent_consistent_def)
  have chp: "Node_children h' m = (if m = self then remove1 child cs else Node_children h m)" for m
    using f[of m] by (simp add: Node_children_def h1_def h2_def)
  have pap: "Node_parent h' m = (if m = child then None else Node_parent h m)" for m
    using f[of m] by (simp add: Node_parent_def h1_def h2_def)
  have "(c \<in> set (Node_children h' p)) = (Node_parent h' c = Some p)" for p c
    using pc csp dcs par by (auto simp: chp pap parent_consistent_def)
  moreover have "distinct (Node_children h' p)" for p
    using pc dcs by (auto simp: chp parent_consistent_def)
  ultimately show ?thesis by (simp add: parent_consistent_def)
qed

lemma clear_consistent:
  assumes pc: "parent_consistent h" and cl: "Node_clear k self h = Inr h'"
  shows "parent_consistent h'"
proof (cases "n_children (h self)")
  case None
  with cl have "h' = h" by (simp add: Node_clear_def)
  with pc show ?thesis by simp
next
  case (Some cs)
  with cl obtain h1 where lp: "Node_clear_loop k h cs = Some h1"
    and h': "h' = h1(self := (h1 self)\<lparr>n_children := Some []\<rparr>)"
    by (auto simp: Node_clear_def split: option.splits)
  have csp: "Node_children h self = cs" using Some by (simp add: Node_children_def)
  have chp: "Node_children h' m = (if m = self then [] else Node_children h m)" for m
    using clear_loop_fields[OF lp, of m] by (simp add: Node_children_def h')
  have pap: "Node_parent h' m = (if m \<in> set cs then None else Node_parent h m)" for m
    using clear_loop_fields[OF lp, of m] by (auto simp: Node_parent_def h')
  have "(c \<in> set (Node_children h' p)) = (Node_parent h' c = Some p)" for p c
    using pc csp by (auto simp: chp pap parent_consistent_def)
  moreover have "distinct (Node_children h' p)" for p
    using pc by (auto simp: chp parent_consistent_def)
  ultimately show ?thesis by (simp add: parent_consistent_def)
qed

lemma fresh_consistent: "fresh h \<Longrightarrow> parent_consistent h"
proof -
  assume f: "fresh h"
  have "Node_children h p = [] \<and> Node_parent h p = None" for p
    using f[unfolded fresh_def, rule_format, of p]
    by (auto simp: Node_children_def Node_parent_def new_node_def)
  then show ?thesis by (simp add: parent_consistent_def)
qed

text \<open>
  Claim C9, as the code has it. After any sequence of \<open>add\<close>, \<open>insert\<close>, \<open>remove\<close> and
  \<open>clear\<close> operations that return, in which \<open>add\<close> and \<open>insert\<close> are only given a child
  that has no parent at that moment, a node is in the children sequence of \<open>p\<close> exactly
  when its parent pointer is \<open>p\<close>, and no children sequence lists a node twice; so a
  node is listed by at most one node, once.
\<close>

theorem built_parent_consistent: "built h \<Longrightarrow> parent_consistent h"
proof (induction rule: built.induct)
  case (built_fresh h)
  then show ?case by (rule fresh_consistent)
next
  case (built_add h child k self h')
  then show ?case by (blast intro: add_consistent)
next
  case (built_insert h child k self index h')
  then show ?case by (blast intro: insert_consistent)
next
  case (built_remove h k self child h')
  then show ?case by (blast intro: remove_consistent)
next
  case (built_clear h k self h')
  then show ?case by (blast intro: clear_consistent)
qed

subsection \<open>Evaluating the operations\<close>

lemmas node_eval = Node_add_def Node_insert_def Node_remove_def Node_clear_def
  Node_root_def Node_parent_def Node_children_def and_then_def observe_def
  two_branches_def new_node_def Let_def eval_nat_numeral

subsection \<open>Leaves\<close>




subsection \<open>Roots after a removal\<close>

text \<open>
  Claim C1 says that every node reachable from a root \<open>r\<close> through children edges has
  root \<open>r\<close>. Node 2 is made a child of node 1 and node 1 a child of node 0; then node 1
  is removed from node 0. Node 1 is a root again (no parent, root itself) and node 2 is
  still its child, but \<open>remove\<close> has passed \<open>None\<close> down the whole subtree as the new
  root, so node 2 reports itself as its root, not node 1. Each line below is the
  parent, the root and the children of nodes 0, 1 and 2.
\<close>

theorem remove_detaches_descendants_roots:
  "observe [0, 1, 2]
     (and_then (and_then (Node_add 3 1 2 two_branches) (Node_add 3 0 1)) (Node_remove 3 0 1))
   = Inr [(None, 0, []), (None, 1, [2]), (Some 1, 2, [])]"
  by (simp add: node_eval)

text \<open>Before the removal the same three nodes do share the root: \<open>add\<close> passes the
  root of the new parent down the subtree it attaches.\<close>

lemma add_propagates_root:
  "observe [0, 1, 2]
     (and_then (Node_add 3 1 2 two_branches) (Node_add 3 0 1))
   = Inr [(None, 0, [1]), (Some 0, 0, [2]), (Some 1, 0, [])]"
  by (simp add: node_eval)

subsection \<open>Adding a node that has a parent\<close>

text \<open>
  Against claim C9 as stated: node 2 is added to node 0 and then to node 1. Its parent
  pointer is node 1, and node 0 still lists it as a child.
\<close>

theorem second_add_keeps_old_listing:
  "observe [0, 1, 2] (and_then (Node_add 3 0 2 two_branches) (Node_add 3 1 2))
   = Inr [(None, 0, [2]), (None, 1, [2]), (Some 1, 1, [])]"
  by (simp add: node_eval)

text \<open>The theorem of claim C9 at the store that adding node 2 to node 0 builds.\<close>

theorem built_parent_consistent_witness:
  "built one_child \<and> parent_consistent one_child \<and>
   Node_children one_child 0 = [2] \<and> Node_parent one_child 2 = Some 0"
proof -
  have f: "fresh two_branches" by (auto simp: fresh_def two_branches_def new_node_def)
  have p: "Node_parent two_branches 2 = None"
    by (simp add: Node_parent_def two_branches_def new_node_def)
  have a: "Node_add 2 0 2 two_branches = Inr one_child"
    by (simp add: one_child_def node_eval)
  have b: "built one_child" by (rule built_add[OF built_fresh[OF f] p a])
  have c: "Node_children one_child 0 = [2]" "Node_parent one_child 2 = Some 0"
    by (simp_all add: one_child_def node_eval)
  from b built_parent_consistent[OF b] c show ?thesis by simp
qed


subsection \<open>What the propagation of the root writes\<close>

text \<open>When \<open>_set_root(node, root)\<close> returns, it has written \<open>root\<close> into \<open>_root\<close> of the
  node and of everything below it, and into no other node.\<close>

lemma child_rel_same_children:
  "(\<And>m. n_children (h' m) = n_children (h m)) \<Longrightarrow> child_rel h' = child_rel h"
  by (simp add: child_rel_def Node_children_def)

lemma descendants_same_children:
  assumes "\<And>m. n_children (h' m) = n_children (h m)"
  shows "descendants h' n = descendants h n"
proof -
  have "child_rel h' = child_rel h" using assms by (rule child_rel_same_children)
  then show ?thesis by (simp only: descendants_def)
qed

lemma descendants_unfold:
  "descendants h n = insert n (\<Union>c \<in> set (Node_children h n). descendants h c)"
proof (rule set_eqI)
  fix m
  show "(m \<in> descendants h n) =
        (m \<in> insert n (\<Union>c \<in> set (Node_children h n). descendants h c))"
  proof
    assume "m \<in> descendants h n"
    then have "(n, m) \<in> (child_rel h)\<^sup>*" by (simp add: descendants_def)
    then show "m \<in> insert n (\<Union>c \<in> set (Node_children h n). descendants h c)"
    proof (cases rule: converse_rtranclE)
      case base
      then show ?thesis by simp
    next
      case (step c)
      from step(1) have "c \<in> set (Node_children h n)" by (simp add: child_rel_def)
      moreover from step(2) have "m \<in> descendants h c" by (simp add: descendants_def)
      ultimately show ?thesis by blast
    qed
  next
    assume "m \<in> insert n (\<Union>c \<in> set (Node_children h n). descendants h c)"
    then consider "m = n" | c where "c \<in> set (Node_children h n)" "m \<in> descendants h c"
      by blast
    then show "m \<in> descendants h n"
    proof cases
      case 1
      then show ?thesis by (simp add: descendants_def)
    next
      case 2
      from 2(1) have "(n, c) \<in> child_rel h" by (simp add: child_rel_def)
      moreover from 2(2) have "(c, m) \<in> (child_rel h)\<^sup>*" by (simp add: descendants_def)
      ultimately have "(n, m) \<in> (child_rel h)\<^sup>*" by (rule converse_rtrancl_into_rtrancl)
      then show ?thesis by (simp add: descendants_def)
    qed
  qed
qed

lemma set_root_roots:
  "Node_set_root k h n r = Some h' \<Longrightarrow>
     n_root (h' m) = (if m \<in> descendants h n then r else n_root (h m))"
  "Node_set_root_each k h cs r = Some h' \<Longrightarrow>
     n_root (h' m) = (if m \<in> (\<Union>c \<in> set cs. descendants h c) then r else n_root (h m))"
proof (induction k h n r and k h cs r arbitrary: h' and h'
       rule: Node_set_root_Node_set_root_each.induct)
  case (1 h n r)
  then show ?case by simp
next
  case (2 k h n r)
  define h1 where "h1 = h(n := (h n)\<lparr>n_root := r\<rparr>)"
  have same: "n_children (h1 x) = n_children (h x)" for x by (simp add: h1_def)
  then have ch: "Node_children h1 n = Node_children h n" by (simp add: Node_children_def)
  from 2(2) have e: "Node_set_root_each k h1 (Node_children h1 n) r = Some h'"
    by (simp add: Let_def h1_def)
  have "n_root (h' m) =
      (if m \<in> (\<Union>c \<in> set (Node_children h1 n). descendants h1 c) then r else n_root (h1 m))"
    using 2(1)[OF h1_def e] .
  then show ?case
    unfolding descendants_unfold[of h n] ch descendants_same_children[of h1 h, OF same]
    by (simp add: h1_def)
next
  case (3 k h r)
  then show ?case by simp
next
  case (4 k h c cs r)
  from 4(3) obtain h1 where a: "Node_set_root k h c r = Some h1"
    and b: "Node_set_root_each k h1 cs r = Some h'"
    by (auto split: option.splits)
  have same: "n_children (h1 x) = n_children (h x)" for x
    using set_root_fields(1)[OF a, of x] by simp
  from 4(1)[OF a] 4(2)[OF a b]
  show ?case
    unfolding descendants_same_children[of h1 h, OF same] by auto
qed

text \<open>The propagation returns when the subtree below the node is within the depth
  allowed.\<close>

lemma depth_within_same_children:
  "(\<And>m. n_children (h' m) = n_children (h m)) \<Longrightarrow> depth_within k h' n = depth_within k h n"
proof (induction k arbitrary: n)
  case 0
  then show ?case by simp
next
  case (Suc k)
  have "Node_children h' n = Node_children h n" using Suc.prems by (simp add: Node_children_def)
  then show ?case using Suc.IH[OF Suc.prems] by (simp add: list_all_iff)
qed

lemma set_root_returns:
  "depth_within k h n \<Longrightarrow> Node_set_root k h n r \<noteq> None"
  "list_all (depth_within k h) cs \<Longrightarrow> Node_set_root_each k h cs r \<noteq> None"
proof (induction k h n r and k h cs r rule: Node_set_root_Node_set_root_each.induct)
  case (1 h n r)
  then show ?case by simp
next
  case (2 k h n r)
  define h1 where "h1 = h(n := (h n)\<lparr>n_root := r\<rparr>)"
  have same: "n_children (h1 x) = n_children (h x)" for x by (simp add: h1_def)
  then have ch: "Node_children h1 n = Node_children h n" by (simp add: Node_children_def)
  from 2(2) have "list_all (depth_within k h1) (Node_children h1 n)"
    by (simp add: ch depth_within_same_children[of h1 h, OF same] list_all_iff)
  from 2(1)[OF h1_def this]
  have "Node_set_root_each k h1 (Node_children h1 n) r \<noteq> None" .
  then show ?case unfolding Node_set_root.simps Let_def h1_def .
next
  case (3 k h r)
  then show ?case by simp
next
  case (4 k h c cs r)
  from 4(3) have bc: "depth_within k h c" and bcs: "list_all (depth_within k h) cs" by simp_all
  from 4(1)[OF bc] obtain h1 where a: "Node_set_root k h c r = Some h1" by auto
  have same: "n_children (h1 x) = n_children (h x)" for x
    using set_root_fields(1)[OF a, of x] by simp
  from bcs have "list_all (depth_within k h1) cs"
    by (simp add: depth_within_same_children[of h1 h, OF same] list_all_iff)
  from 4(2)[OF a this] a show ?case by simp
qed

text \<open>
  So after \<open>add\<close> and \<open>insert\<close> the child and all its descendants report the root of the
  new parent. After \<open>remove\<close> the child and all its descendants have \<open>_root = None\<close>: each
  of them reports itself as the root, also those that still have a parent below the
  removed child.
\<close>

lemma add_descendants_root:
  assumes "Node_add k self child h = Inr h'" and m: "m \<in> descendants h' child"
  shows "Node_root h' m = Node_root h self"
proof -
  from assms(1) obtain cs where cs: "n_children (h self) = Some cs"
    by (auto simp: Node_add_def split: option.splits)
  define h1 where "h1 = h(self := (h self)\<lparr>n_children := Some (cs @ [child])\<rparr>)"
  define h2 where "h2 = h1(child := (h1 child)\<lparr>n_parent := Some self\<rparr>)"
  from assms(1) cs have sr: "Node_set_root k h2 child (Some (Node_root h2 self)) = Some h'"
    by (auto simp: Node_add_def Let_def h1_def h2_def split: option.splits)
  have r: "Node_root h2 self = Node_root h self"
    by (simp add: Node_root_def h1_def h2_def)
  have same: "n_children (h' x) = n_children (h2 x)" for x
    using set_root_fields(1)[OF sr, of x] by simp
  from m have "m \<in> descendants h2 child"
    by (simp only: descendants_same_children[of h' h2, OF same])
  with set_root_roots(1)[OF sr, of m] r show ?thesis by (simp add: Node_root_def)
qed

lemma insert_descendants_root:
  assumes "Node_insert k self index child h = Inr h'" and m: "m \<in> descendants h' child"
  shows "Node_root h' m = Node_root h self"
proof -
  from assms(1) obtain cs where cs: "n_children (h self) = Some cs"
    by (auto simp: Node_insert_def split: option.splits)
  define h1 where "h1 = h(self := (h self)\<lparr>n_children := Some (list_insert index child cs)\<rparr>)"
  define h2 where "h2 = h1(child := (h1 child)\<lparr>n_parent := Some self\<rparr>)"
  from assms(1) cs have sr: "Node_set_root k h2 child (Some (Node_root h2 self)) = Some h'"
    by (auto simp: Node_insert_def Let_def h1_def h2_def split: option.splits)
  have r: "Node_root h2 self = Node_root h self"
    by (simp add: Node_root_def h1_def h2_def)
  have same: "n_children (h' x) = n_children (h2 x)" for x
    using set_root_fields(1)[OF sr, of x] by simp
  from m have "m \<in> descendants h2 child"
    by (simp only: descendants_same_children[of h' h2, OF same])
  with set_root_roots(1)[OF sr, of m] r show ?thesis by (simp add: Node_root_def)
qed

lemma remove_descendants_root:
  assumes "Node_remove k self child h = Inr h'" and m: "m \<in> descendants h' child"
  shows "Node_root h' m = m"
proof -
  from assms(1) obtain cs where cs: "n_children (h self) = Some cs" and mem: "child \<in> set cs"
    by (auto simp: Node_remove_def split: option.splits if_splits)
  define h1 where "h1 = h(self := (h self)\<lparr>n_children := Some (remove1 child cs)\<rparr>)"
  define h2 where "h2 = h1(child := (h1 child)\<lparr>n_parent := None\<rparr>)"
  from assms(1) cs mem have sr: "Node_set_root k h2 child None = Some h'"
    by (auto simp: Node_remove_def Let_def h1_def h2_def split: option.splits)
  have same: "n_children (h' x) = n_children (h2 x)" for x
    using set_root_fields(1)[OF sr, of x] by simp
  from m have "m \<in> descendants h2 child"
    by (simp only: descendants_same_children[of h' h2, OF same])
  with set_root_roots(1)[OF sr, of m] show ?thesis by (simp add: Node_root_def)
qed

lemma child_is_descendant:
  "g \<in> set (Node_children h c) \<Longrightarrow> g \<in> descendants h c"
  by (subst descendants_unfold) (auto simp: descendants_def)

lemma remove_child_of_child_root:
  "Node_remove k self child h = Inr h' \<Longrightarrow> g \<in> set (Node_children h' child) \<Longrightarrow>
     Node_root h' g = g"
  by (rule remove_descendants_root) (auto intro: child_is_descendant)


section \<open>Properties of style declarations\<close>

subsection \<open>Equality of values\<close>




subsection \<open>Validation\<close>





subsection \<open>Writing, reading and deleting a validated property\<close>

text \<open>
  Claim C2, as the code has it. Deleting a property removes the stored value; when a
  value was stored, \<open>apply(name, initial)\<close> is called once, and when none was stored
  nothing is called and the object stays as it is. Afterwards the property reads as its
  initial value.
\<close>

theorem delete_resets:
  "validated_property_get name p (validated_property_delete name p s) = initial p
   \<and> attrs (validated_property_delete name p s) = (attrs s)(slot name := None)
   \<and> applied (validated_property_delete name p s)
       = applied s @ (if attrs s (slot name) = None then [] else [(name, initial p)])
   \<and> validated_property_delete name p (validated_property_delete name p s)
       = validated_property_delete name p s"
  by (auto simp: validated_property_delete_def validated_property_get_def stored_def
      split: option.splits)

text \<open>Against claim C2 as stated: deleting \<open>allow_integer\<close> on an object that holds no
  value for it calls \<open>apply\<close> not at all.\<close>

theorem delete_unset_applies_nothing:
  "validated_property_delete ''allow_integer'' allow_integer new_style = new_style
   \<and> applied (validated_property_delete ''allow_integer'' allow_integer new_style) = []"
  by (simp add: validated_property_delete_def new_style_def)







subsection \<open>Names\<close>

lemma replace_hyphens_id: "CHR ''-'' \<notin> set n \<Longrightarrow> replace_hyphens n = n"
  by (induction n) (auto simp: replace_hyphens_def)

lemma wf_schema_name: "wf_schema sch \<Longrightarrow> (n, d) \<in> set sch \<Longrightarrow> CHR ''-'' \<notin> set n"
  by (force simp: wf_schema_def list_all_iff)

lemma validated_properties_set:
  "(n, p) \<in> set (validated_properties sch) \<Longrightarrow> (n, Validated p) \<in> set sch"
  by (induction sch rule: validated_properties.induct) auto

lemma validated_properties_lookup:
  assumes "wf_schema sch" "(n, p) \<in> set (validated_properties sch)"
  shows "replace_hyphens n = n \<and> map_of sch n = Some (Validated p)"
proof -
  from assms(2) have m: "(n, Validated p) \<in> set sch" by (rule validated_properties_set)
  from assms(1) have "distinct (map fst sch)" by (simp add: wf_schema_def)
  with m have "map_of sch n = Some (Validated p)" by simp
  moreover from wf_schema_name[OF assms(1) m] have "replace_hyphens n = n"
    by (rule replace_hyphens_id)
  ultimately show ?thesis by simp
qed

subsection \<open>Reapplying\<close>

lemma validated_property_get_applied [simp]:
  "validated_property_get n p (s\<lparr>applied := a\<rparr>) = validated_property_get n p s"
  by (simp add: validated_property_get_def stored_def)

lemma reapply_loop_validated:
  assumes "\<And>n p. (n, p) \<in> set nps \<Longrightarrow> replace_hyphens n = n \<and> map_of sch n = Some (Validated p)"
  shows "reapply_loop (Suc k) sch (map fst nps) s =
           (None, s\<lparr>applied := applied s @ map (\<lambda>(n, p). (n, validated_property_get n p s)) nps\<rparr>)"
  using assms
proof (induction nps arbitrary: s)
  case Nil
  then show ?case by simp
next
  case (Cons np nps)
  obtain n p where np: "np = (n, p)" by (cases np)
  from Cons.prems[of n p] np have l: "replace_hyphens n = n" "map_of sch n = Some (Validated p)"
    by simp_all
  have "reapply_loop (Suc k) sch (map fst nps) s' =
      (None, s'\<lparr>applied := applied s' @ map (\<lambda>(n, p). (n, validated_property_get n p s')) nps\<rparr>)"
    for s'
    by (rule Cons.IH) (rule Cons.prems, simp)
  then show ?case by (simp add: np l)
qed

text \<open>
  Claim C7, as the code has it. On a style class whose attribute names are distinct
  identifiers, \<open>reapply()\<close> returns and calls \<open>apply(name, self[name])\<close> once for every
  validated (primary) property of the class, in the order of \<open>_PROPERTIES\<close>, whether the
  property is set or not; for a property that is not set the value passed is its initial
  value. Directional names are not replayed.
\<close>

theorem reapply_all_properties:
  "wf_schema sch \<Longrightarrow>
     BaseStyle_reapply (Suc k) sch s =
       (None, s\<lparr>applied := applied s @
          map (\<lambda>(n, p). (n, validated_property_get n p s)) (validated_properties sch)\<rparr>)"
  unfolding BaseStyle_reapply_def PROPERTIES_def
  by (rule reapply_loop_validated) (rule validated_properties_lookup)

lemma wf_Style: "wf_schema Style"
  by (simp add: wf_schema_def Style_def)

lemma wf_BoxStyle: "wf_schema BoxStyle"
  by (simp add: wf_schema_def BoxStyle_def)

text \<open>The theorem of claim C7 at an object of \<open>Style\<close> that holds 5 for
  \<open>allow_integer\<close>.\<close>

theorem reapply_all_properties_witness:
  "wf_schema Style \<and>
   BaseStyle_reapply 1 Style holding_5 =
     (None, holding_5\<lparr>applied := [(''allow_string'', VStr ''start''),
                                   (''allow_integer'', VInt 5)]\<rparr>)"
proof -
  have "BaseStyle_reapply (Suc 0) Style holding_5 =
     (None, holding_5\<lparr>applied := [(''allow_string'', VStr ''start''),
                                   (''allow_integer'', VInt 5)]\<rparr>)"
    unfolding reapply_all_properties[OF wf_Style, of 0 holding_5]
    by (simp add: Style_def holding_5_def validated_property_get_def stored_def slot_def
        allow_string_def)
  with wf_Style show ?thesis by simp
qed

text \<open>Against claim C7 as stated: on a new object of \<open>Style\<close> no property is set, and
  \<open>reapply()\<close> calls \<open>apply\<close> for both properties with their initial values.\<close>

theorem reapply_unset_properties:
  "BaseStyle_keys Style new_style = []
   \<and> BaseStyle_reapply 1 Style new_style =
       (None, new_style\<lparr>applied := [(''allow_string'', VStr ''start''),
                                     (''allow_integer'', VInt 0)]\<rparr>)"
  by (simp add: BaseStyle_keys_def BaseStyle_contains_def BaseStyle_reapply_def
      PROPERTIES_def ALL_PROPERTIES_def Style_def new_style_def
      validated_property_is_set_on_def validated_property_get_def stored_def
      replace_hyphens_def allow_string_def allow_integer_def)

subsection \<open>Membership\<close>

text \<open>
  Claim C10. On a style class whose attribute names are distinct identifiers, let
  \<open>name\<close> be a validated property that is set to \<open>v\<close>, and \<open>h\<close> a hyphenated form of the
  name (\<open>h\<close> differs from \<open>name\<close>, and replacing its hyphens by underscores gives \<open>name\<close>).
  Then \<open>style[h]\<close> returns \<open>v\<close>, while \<open>h in style\<close> is false, although \<open>name in style\<close>
  is true: \<open>__contains__\<close> looks the raw name up in \<open>_ALL_PROPERTIES\<close>.
\<close>

theorem contains_hyphenated:
  assumes wf: "wf_schema sch"
    and p: "map_of sch name = Some (Validated p)"
    and h: "replace_hyphens h = name" "h \<noteq> name"
    and v: "attrs s (slot name) = Some v" "v \<noteq> VNone"
  shows "BaseStyle_getitem (Suc k) sch h s = Inr v
       \<and> \<not> BaseStyle_contains sch h s
       \<and> BaseStyle_contains sch name s"
proof -
  have g: "BaseStyle_getitem (Suc k) sch h s = Inr v"
    using p h(1) v by (simp add: validated_property_get_def stored_def)
  have "CHR ''-'' \<in> set h" using h replace_hyphens_id[of h] by auto
  then have "h \<notin> set (map fst sch)" using wf_schema_name[OF wf] by auto
  then have n: "\<not> BaseStyle_contains sch h s"
    by (simp add: BaseStyle_contains_def ALL_PROPERTIES_def)
  from p have "name \<in> set (map fst sch)" by (metis map_of_eq_None_iff option.distinct(1) set_map)
  then have "BaseStyle_contains sch name s"
    using p v by (simp add: BaseStyle_contains_def ALL_PROPERTIES_def
        validated_property_is_set_on_def)
  with g n show ?thesis by simp
qed

text \<open>The theorem of claim C10 at \<open>allow_integer\<close> and \<open>"allow-integer"\<close>.\<close>

theorem contains_hyphenated_witness:
  "BaseStyle_getitem 1 Style ''allow-integer'' holding_5 = Inr (VInt 5)
   \<and> \<not> BaseStyle_contains Style ''allow-integer'' holding_5
   \<and> BaseStyle_contains Style ''allow_integer'' holding_5"
proof -
  have p: "map_of Style ''allow_integer'' = Some (Validated allow_integer)"
    by (simp add: Style_def)
  have h: "replace_hyphens ''allow-integer'' = ''allow_integer''"
    "''allow-integer'' \<noteq> ''allow_integer''"
    by (simp_all add: replace_hyphens_def)
  have v: "attrs holding_5 (slot ''allow_integer'') = Some (VInt 5)" "VInt 5 \<noteq> VNone"
    by (simp_all add: holding_5_def)
  from contains_hyphenated[OF wf_Style p h v, of 0] show ?thesis by simp
qed


subsection \<open>Directional properties\<close>



lemma slot_inject [simp]: "(slot a = slot b) = (a = b)"
  by (simp add: slot_def)

lemma replace_hyphens_append:
  "replace_hyphens (a @ b) = replace_hyphens a @ replace_hyphens b"
  by (simp add: replace_hyphens_def)







lemmas style_eval = validated_property_set_def validated_property_validate_def
  validated_property_get_def Choices_validate_def stored_def slot_def format_def
  replace_hyphens_def as_tuple_def ASSIGNMENT_SCHEMES_def DIRECTIONS_def
  BoxStyle_def Style_def allow_integer_def allow_string_def numbers_only_def
  new_style_def holding_5_def str_strip_def ALL_PROPERTIES_def Let_def




text \<open>The same write and read, evaluated: the four sub-properties are stored and applied
  in the order top, right, bottom, left.\<close>

lemma margin_1_2:
  "BaseStyle_setitem 2 numbers_only BoxStyle ''margin'' (VTuple [VInt 1, VInt 2]) new_style
     = (None,
        \<lparr>attrs = [''_margin_top'' \<mapsto> VInt 1, ''_margin_right'' \<mapsto> VInt 2,
                  ''_margin_bottom'' \<mapsto> VInt 1, ''_margin_left'' \<mapsto> VInt 2],
         applied = [(''margin_top'', VInt 1), (''margin_right'', VInt 2),
                    (''margin_bottom'', VInt 1), (''margin_left'', VInt 2)]\<rparr>)"
  "BaseStyle_getitem 2 BoxStyle ''margin''
     \<lparr>attrs = [''_margin_top'' \<mapsto> VInt 1, ''_margin_right'' \<mapsto> VInt 2,
               ''_margin_bottom'' \<mapsto> VInt 1, ''_margin_left'' \<mapsto> VInt 2],
      applied = a\<rparr>
     = Inr (VTuple [VInt 1, VInt 2, VInt 1, VInt 2])"
  by (simp_all add: eval_nat_numeral style_eval)

subsection \<open>Rejected writes\<close>








end
